theory Spec2Isabelle
  imports Complex_Main "HOL-Library.Word" "HOL-Library.Multiset"
begin

text \<open>
  An embedding of \<^verbatim>\<open>TSP.cpp\<close>: the nearest-neighbour tour builder
  \<^verbatim>\<open>TSP::nearestNeighbor\<close> and the report \<^verbatim>\<open>TSP::Tour::display\<close>. The sources hold the
  file twice; in the copy under \<^verbatim>\<open>Project 3\<close> the builder is still a stub that returns an
  empty tour, and \<^verbatim>\<open>display\<close> is the same. The completed file is the one modelled here.
\<close>

section \<open>Data model\<close>

text \<open>
  \<^verbatim>\<open>size_t\<close> is the unsigned 64-bit integer of the usual LP64 targets: addition wraps
  around and \<open><\<close> is the unsigned comparison.
\<close>

type_synonym size_t = "64 word"

text \<open>
  Modelled from the spec: the class \<^verbatim>\<open>Node\<close> is declared in a header that is not part of
  the sources. The sources construct it as \<^verbatim>\<open>Node(ID, x, y)\<close> from a \<^verbatim>\<open>size_t\<close> and two
  \<^verbatim>\<open>double\<close>s and read its member \<^verbatim>\<open>id\<close>. The coordinates are idealised as real numbers.
\<close>

record Node =
  id_node :: size_t
  x_node :: real
  y_node :: real

text \<open>The constructor call \<^verbatim>\<open>Node(ID, x, y)\<close>.\<close>

abbreviation mk_Node :: "size_t \<Rightarrow> real \<Rightarrow> real \<Rightarrow> Node" where
  "mk_Node i x y \<equiv> \<lparr>id_node = i, x_node = x, y_node = y\<rparr>"

text \<open>
  \<^verbatim>\<open>TSP::Tour\<close>, with the three members that \<^verbatim>\<open>nearestNeighbor\<close> and \<^verbatim>\<open>display\<close> use.
\<close>

record Tour =
  path :: "Node list"
  weights :: "size_t list"
  total_distance :: size_t

text \<open>
  The sources raise nothing in \<^verbatim>\<open>nearestNeighbor\<close> and \<^verbatim>\<open>display\<close>. The only ways they
  leave defined behaviour are the dereference (and erasure) of \<^verbatim>\<open>cities.end()\<close> and an
  unchecked \<^verbatim>\<open>operator[]\<close> beyond the end of a vector.
\<close>

datatype fault = EndIteratorDereference | VectorIndexOutOfRange

section \<open>The distance primitive\<close>

text \<open>
  Modelled from the spec: \<^verbatim>\<open>Node::distance\<close> is defined outside the sources. The spec gives
  it as the Euclidean distance \<open>sqrt ((x1 - x2)\<^sup>2 + (y1 - y2)\<^sup>2)\<close>, truncated toward zero to
  an unsigned integral unit. The square root is never negative, so the truncation is the
  floor. A value beyond the range of \<^verbatim>\<open>size_t\<close>, whose conversion C++ leaves undefined, is
  reduced modulo \<open>2 ^ 64\<close> here.
\<close>

definition distance :: "Node \<Rightarrow> Node \<Rightarrow> size_t" where
  "distance a b =
     word_of_int \<lfloor>sqrt ((x_node a - x_node b)\<^sup>2 + (y_node a - y_node b)\<^sup>2)\<rfloor>"

section \<open>The nearest-neighbour tour builder\<close>

text \<open>
  The search for the start city. An iterator is the position it points to;
  \<open>None\<close> is \<^verbatim>\<open>cities.end()\<close>, the value \<^verbatim>\<open>start_it\<close> keeps when no id matches.
\<close>

fun find_start :: "Node list \<Rightarrow> size_t \<Rightarrow> nat option" where
  "find_start [] start_id = None"
| "find_start (c # cs) start_id =
     (if id_node c = start_id then Some 0 else map_option Suc (find_start cs start_id))"

text \<open>\<^verbatim>\<open>cities.erase(it)\<close> for an iterator at position \<open>i\<close>.\<close>

definition erase :: "nat \<Rightarrow> 'a list \<Rightarrow> 'a list" where
  "erase i xs = take i xs @ drop (Suc i) xs"

text \<open>
  The inner \<^verbatim>\<open>for\<close> loop over the remaining cities: \<open>k\<close> is the position of \<^verbatim>\<open>it\<close>, and
  the pair is \<^verbatim>\<open>(nearest_it, min_distance)\<close>. The distance function is a parameter.
\<close>

fun scan :: "(Node \<Rightarrow> Node \<Rightarrow> size_t) \<Rightarrow> Node \<Rightarrow> Node list \<Rightarrow> nat \<Rightarrow> nat \<times> size_t
    \<Rightarrow> nat \<times> size_t" where
  "scan d current [] k (nearest_it, min_distance) = (nearest_it, min_distance)"
| "scan d current (c # cs) k (nearest_it, min_distance) =
     (let dist = d current c in
      if dist < min_distance then scan d current cs (Suc k) (k, dist)
      else scan d current cs (Suc k) (nearest_it, min_distance))"

text \<open>
  The selection of one iteration: \<^verbatim>\<open>nearest_it = cities.begin()\<close>,
  \<^verbatim>\<open>min_distance = current.distance(*nearest_it)\<close>, then the scan from
  \<^verbatim>\<open>std::next(cities.begin())\<close>. It is only called on a non-empty list.
\<close>

definition nearest :: "(Node \<Rightarrow> Node \<Rightarrow> size_t) \<Rightarrow> Node \<Rightarrow> Node list \<Rightarrow> nat \<times> size_t" where
  "nearest d current cities = scan d current (tl cities) 1 (0, d current (hd cities))"

text \<open>The \<^verbatim>\<open>while (!cities.empty())\<close> loop, on the locals it changes.\<close>

function tour_loop :: "(Node \<Rightarrow> Node \<Rightarrow> size_t) \<Rightarrow> Node \<Rightarrow> Node list \<Rightarrow> Tour
    \<Rightarrow> Node \<times> Node list \<times> Tour" where
  "tour_loop d current cities tour =
     (if cities = [] then (current, cities, tour)
      else
        let (nearest_it, min_distance) = nearest d current cities;
            tour' = tour\<lparr>path := path tour @ [cities ! nearest_it],
                        weights := weights tour @ [min_distance],
                        total_distance := total_distance tour + min_distance\<rparr>
        in tour_loop d (cities ! nearest_it) (erase nearest_it cities) tour')"
  by pat_completeness auto
termination
proof (relation "measure (\<lambda>(d, current, cities, tour). length cities)", goal_cases)
  case 1
  show ?case by simp
next
  case (2 d current cities tour x nearest_it min_distance tour')
  have bound: "fst (scan d current cs k (i, m)) < k + length cs" if "i < k" for cs k i m
    using that
  proof (induction cs arbitrary: k i m)
    case Nil
    then show ?case by simp
  next
    case (Cons c cs)
    from Cons.IH [of k "Suc k" "d current c"] Cons.IH [of i "Suc k" m] Cons.prems
    show ?case by (simp add: Let_def)
  qed
  from 2 have "1 + length (tl cities) = length cities"
    by (cases cities) simp_all
  moreover from 2 have "nearest_it = fst (scan d current (tl cities) 1 (0, d current (hd cities)))"
    by (simp add: nearest_def) (metis fst_conv)
  ultimately have "nearest_it < length cities"
    using bound [of 0 1 "tl cities" "d current (hd cities)"] by simp
  then have "length (erase nearest_it cities) < length cities"
    by (simp add: erase_def)
  then show ?case by simp
qed

text \<open>
  The body of \<^verbatim>\<open>TSP::nearestNeighbor\<close>, returning its locals at the \<^verbatim>\<open>return\<close> statement:
  the last \<^verbatim>\<open>current\<close>, what is left of the by-value parameter \<^verbatim>\<open>cities\<close>, and \<^verbatim>\<open>tour\<close>.
  When no id matches, \<^verbatim>\<open>*start_it\<close> dereferences \<^verbatim>\<open>cities.end()\<close>.
\<close>

definition nearestNeighbor_body :: "(Node \<Rightarrow> Node \<Rightarrow> size_t) \<Rightarrow> Node list \<Rightarrow> size_t
    \<Rightarrow> fault + Node \<times> Node list \<times> Tour" where
  "nearestNeighbor_body d cities start_id =
     (case find_start cities start_id of
        None \<Rightarrow> Inl EndIteratorDereference
      | Some start_it \<Rightarrow>
          let current = cities ! start_it;
              cities1 = erase start_it cities;
              tour = \<lparr>path = [current], weights = [0], total_distance = 0\<rparr>;
              (current', cities', tour') = tour_loop d current cities1 tour;
              return_distance = d current' (hd (path tour'))
          in Inr (current', cities',
                  tour'\<lparr>path := path tour' @ [hd (path tour')],
                        weights := weights tour' @ [return_distance],
                        total_distance := total_distance tour' + return_distance\<rparr>))"

definition nearestNeighbor :: "(Node \<Rightarrow> Node \<Rightarrow> size_t) \<Rightarrow> Node list \<Rightarrow> size_t
    \<Rightarrow> fault + Tour" where
  "nearestNeighbor d cities start_id =
     (case nearestNeighbor_body d cities start_id of
        Inl f \<Rightarrow> Inl f
      | Inr (current, cities', tour) \<Rightarrow> Inr tour)"

text \<open>
  The locals of the \<^verbatim>\<open>while\<close> loop after its first \<open>n\<close> iterations (or at its end, when it
  ends earlier): the same body as \<open>tour_loop\<close>, run a bounded number of times.
\<close>

fun tour_iter :: "nat \<Rightarrow> (Node \<Rightarrow> Node \<Rightarrow> size_t) \<Rightarrow> Node \<Rightarrow> Node list \<Rightarrow> Tour
    \<Rightarrow> Node \<times> Node list \<times> Tour" where
  "tour_iter 0 d current cities tour = (current, cities, tour)"
| "tour_iter (Suc n) d current cities tour =
     (if cities = [] then (current, cities, tour)
      else
        let (nearest_it, min_distance) = nearest d current cities;
            tour' = tour\<lparr>path := path tour @ [cities ! nearest_it],
                        weights := weights tour @ [min_distance],
                        total_distance := total_distance tour + min_distance\<rparr>
        in tour_iter n d (cities ! nearest_it) (erase nearest_it cities) tour')"

section \<open>The parameter as an object of its own\<close>

text \<open>
  The objects of type \<^verbatim>\<open>std::list<Node>\<close> that are alive, by address. The builder reads and
  erases through its parameter \<^verbatim>\<open>cities\<close>; here the parameter object lives at address \<open>p\<close>
  of a store and every \<^verbatim>\<open>cities.erase\<close> is a write at \<open>p\<close>.
\<close>

type_synonym addr = nat
type_synonym store = "addr \<Rightarrow> Node list"

text \<open>The \<^verbatim>\<open>while\<close> loop again, with \<^verbatim>\<open>cities\<close> read and erased in the store.\<close>

function tour_loop_at :: "(Node \<Rightarrow> Node \<Rightarrow> size_t) \<Rightarrow> addr \<Rightarrow> Node \<Rightarrow> store \<Rightarrow> Tour
    \<Rightarrow> Node \<times> store \<times> Tour" where
  "tour_loop_at d p current \<sigma> tour =
     (if \<sigma> p = [] then (current, \<sigma>, tour)
      else
        let (nearest_it, min_distance) = nearest d current (\<sigma> p);
            tour' = tour\<lparr>path := path tour @ [\<sigma> p ! nearest_it],
                        weights := weights tour @ [min_distance],
                        total_distance := total_distance tour + min_distance\<rparr>
        in tour_loop_at d p (\<sigma> p ! nearest_it) (\<sigma>(p := erase nearest_it (\<sigma> p))) tour')"
  by pat_completeness auto
termination
proof (relation "measure (\<lambda>(d, p, current, \<sigma>, tour). length (\<sigma> p))", goal_cases)
  case 1
  show ?case by simp
next
  case (2 d p current \<sigma> tour x nearest_it min_distance tour')
  have bound: "fst (scan d current cs k (i, m)) < k + length cs" if "i < k" for cs k i m
    using that
  proof (induction cs arbitrary: k i m)
    case Nil
    then show ?case by simp
  next
    case (Cons c cs)
    from Cons.IH [of k "Suc k" "d current c"] Cons.IH [of i "Suc k" m] Cons.prems
    show ?case by (simp add: Let_def)
  qed
  from 2 have "1 + length (tl (\<sigma> p)) = length (\<sigma> p)"
    by (cases "\<sigma> p") simp_all
  moreover from 2 have "nearest_it = fst (scan d current (tl (\<sigma> p)) 1 (0, d current (hd (\<sigma> p))))"
    by (simp add: nearest_def) (metis fst_conv)
  ultimately have "nearest_it < length (\<sigma> p)"
    using bound [of 0 1 "tl (\<sigma> p)" "d current (hd (\<sigma> p))"] by simp
  then have "length (erase nearest_it (\<sigma> p)) < length (\<sigma> p)"
    by (simp add: erase_def)
  then show ?case by simp
qed

text \<open>
  The body of \<^verbatim>\<open>TSP::nearestNeighbor\<close> on the store: it returns the tour and the store it
  leaves behind.
\<close>

definition nearestNeighbor_at :: "(Node \<Rightarrow> Node \<Rightarrow> size_t) \<Rightarrow> addr \<Rightarrow> store \<Rightarrow> size_t
    \<Rightarrow> fault + Tour \<times> store" where
  "nearestNeighbor_at d p \<sigma> start_id =
     (case find_start (\<sigma> p) start_id of
        None \<Rightarrow> Inl EndIteratorDereference
      | Some start_it \<Rightarrow>
          let current = \<sigma> p ! start_it;
              \<sigma>1 = \<sigma>(p := erase start_it (\<sigma> p));
              tour = \<lparr>path = [current], weights = [0], total_distance = 0\<rparr>;
              (current', \<sigma>', tour') = tour_loop_at d p current \<sigma>1 tour;
              return_distance = d current' (hd (path tour'))
          in Inr (tour'\<lparr>path := path tour' @ [hd (path tour')],
                        weights := weights tour' @ [return_distance],
                        total_distance := total_distance tour' + return_distance\<rparr>, \<sigma>'))"

text \<open>
  A call \<^verbatim>\<open>TSP::nearestNeighbor(cs, start_id)\<close> where the caller's list \<^verbatim>\<open>cs\<close> lives at
  address \<open>a\<close>. The parameter is declared \<^verbatim>\<open>std::list<Node> cities\<close>, not a reference: the
  call copy-constructs it from the argument into the parameter object at address \<open>p\<close> and
  runs the body there.
\<close>

definition call_nearestNeighbor :: "(Node \<Rightarrow> Node \<Rightarrow> size_t) \<Rightarrow> store \<Rightarrow> addr \<Rightarrow> addr \<Rightarrow> size_t
    \<Rightarrow> fault + Tour \<times> store" where
  "call_nearestNeighbor d \<sigma> a p start_id = nearestNeighbor_at d p (\<sigma>(p := \<sigma> a)) start_id"

section \<open>The report formatter\<close>

text \<open>
  \<^verbatim>\<open>std::cout << n\<close> for a \<^verbatim>\<open>size_t\<close>: the decimal digits, without sign or padding.
\<close>

function to_string :: "nat \<Rightarrow> string" where
  "to_string n =
     (if n < 10 then [''0123456789'' ! n]
      else to_string (n div 10) @ [''0123456789'' ! (n mod 10)])"
  by pat_completeness auto
termination
  by (relation "measure (\<lambda>n. n)") simp_all

definition endl :: string where
  "endl = [CHR 0x0A]"

text \<open>The text that one iteration of the loop in \<^verbatim>\<open>TSP::Tour::display\<close> writes.\<close>

definition edge_line :: "Node \<Rightarrow> Node \<Rightarrow> size_t \<Rightarrow> string" where
  "edge_line a b w =
     ''EDGE '' @ to_string (unat (id_node a)) @ '' -> '' @ to_string (unat (id_node b))
       @ '' | WEIGHT : '' @ to_string (unat w) @ endl"

text \<open>
  The \<^verbatim>\<open>for\<close> loop of \<^verbatim>\<open>display\<close>, from index \<open>i\<close>, appending to what was written so far.
  \<^verbatim>\<open>path[i-1]\<close> and \<^verbatim>\<open>path[i]\<close> are in range under the loop condition; \<^verbatim>\<open>weights[i]\<close> is an
  unchecked read.
\<close>

function display_loop :: "Tour \<Rightarrow> nat \<Rightarrow> string \<Rightarrow> fault + string" where
  "display_loop t i out =
     (if i < length (path t) then
        (if i < length (weights t) then
           display_loop t (Suc i)
             (out @ edge_line (path t ! (i - 1)) (path t ! i) (weights t ! i))
         else Inl VectorIndexOutOfRange)
      else Inr out)"
  by pat_completeness auto
termination
  by (relation "measure (\<lambda>(t, i, out). length (path t) - i)") simp_all

definition display :: "Tour \<Rightarrow> fault + string" where
  "display t =
     (case display_loop t 1 [] of
        Inl f \<Rightarrow> Inl f
      | Inr out \<Rightarrow> Inr (out @ ''TOTAL DISTANCE: '' @ to_string (unat (total_distance t)) @ endl))"

section \<open>Predicates used in the statements\<close>

text \<open>
  The selection rule in the words of the specification: among the first \<open>k\<close> points of
  \<open>xs\<close>, position \<open>i\<close> holds a point at distance \<open>m\<close> from \<open>current\<close>, no point is nearer,
  and every point before \<open>i\<close> is strictly farther.
\<close>

definition first_min :: "(Node \<Rightarrow> Node \<Rightarrow> size_t) \<Rightarrow> Node \<Rightarrow> Node list \<Rightarrow> nat \<Rightarrow> nat
    \<Rightarrow> size_t \<Rightarrow> bool" where
  "first_min d current xs k i m \<longleftrightarrow>
     i < k \<and> m = d current (xs ! i) \<and> (\<forall>j<k. m \<le> d current (xs ! j)) \<and> (\<forall>j<i. m < d current (xs ! j))"

text \<open>
  The invariant of the tour under construction: \<open>current\<close> is the last city of the path,
  \<open>weights\<close> runs parallel to \<open>path\<close>, starts with \<open>0\<close> and holds the length of every edge,
  and \<open>total_distance\<close> is the sum of the weights.
\<close>

definition tour_inv :: "(Node \<Rightarrow> Node \<Rightarrow> size_t) \<Rightarrow> Node \<Rightarrow> Tour \<Rightarrow> bool" where
  "tour_inv d current tour \<longleftrightarrow>
     path tour \<noteq> [] \<and> current = last (path tour) \<and>
     length (weights tour) = length (path tour) \<and>
     weights tour ! 0 = 0 \<and>
     (\<forall>i. 0 < i \<and> i < length (path tour) \<longrightarrow>
        weights tour ! i = d (path tour ! (i - 1)) (path tour ! i)) \<and>
     total_distance tour = sum_list (weights tour)"

declare tour_loop.simps [simp del] tour_loop_at.simps [simp del] display_loop.simps [simp del]
  to_string.simps [simp del]

section \<open>The start search and the erasure\<close>

lemma find_start_None_iff: "find_start cs s = None \<longleftrightarrow> s \<notin> id_node ` set cs"
  by (induction cs) auto

lemma find_start_Some:
  "find_start cs s = Some i \<Longrightarrow> i < length cs \<and> id_node (cs ! i) = s \<and> (\<forall>j<i. id_node (cs ! j) \<noteq> s)"
proof (induction cs arbitrary: i)
  case Nil
  then show ?case by simp
next
  case (Cons c cs)
  show ?case
  proof (cases "id_node c = s")
    case True
    with Cons.prems show ?thesis by simp
  next
    case False
    with Cons.prems obtain i' where i': "find_start cs s = Some i'" "i = Suc i'"
      by auto
    from Cons.IH [OF i'(1)] False i'(2) show ?thesis
      by (auto simp: nth_Cons split: nat.splits)
  qed
qed

lemma length_erase: "i < length xs \<Longrightarrow> length (erase i xs) = length xs - 1"
  by (simp add: erase_def)

lemma mset_erase: "i < length xs \<Longrightarrow> add_mset (xs ! i) (mset (erase i xs)) = mset xs"
proof -
  assume "i < length xs"
  then have "xs = take i xs @ xs ! i # drop (Suc i) xs"
    by (simp add: id_take_nth_drop)
  then have "mset xs = mset (take i xs @ xs ! i # drop (Suc i) xs)"
    by simp
  then show ?thesis
    by (simp add: erase_def)
qed

section \<open>The selection of the nearest remaining city\<close>

lemma scan_first_min:
  "first_min d current (pre @ cs) (length pre) ni m \<Longrightarrow>
   scan d current cs (length pre) (ni, m) = (i, m') \<Longrightarrow>
   first_min d current (pre @ cs) (length pre + length cs) i m'"
proof (induction cs arbitrary: pre ni m)
  case Nil
  then show ?case by simp
next
  case (Cons c cs)
  let ?xs = "pre @ c # cs"
  let ?pre = "pre @ [c]"
  have xs: "?pre @ cs = ?xs" by simp
  have c: "?xs ! length pre = c" by simp
  show ?case
  proof (cases "d current c < m")
    case True
    from Cons.prems(1) True c have "first_min d current ?xs (Suc (length pre)) (length pre) (d current c)"
      unfolding first_min_def by (auto simp: less_Suc_eq)
    then have "first_min d current (?pre @ cs) (length ?pre) (length pre) (d current c)"
      by simp
    moreover from Cons.prems(2) True have "scan d current cs (length ?pre) (length pre, d current c) = (i, m')"
      by simp
    ultimately have "first_min d current (?pre @ cs) (length ?pre + length cs) i m'"
      by (rule Cons.IH)
    then show ?thesis by simp
  next
    case False
    from Cons.prems(1) False c have "first_min d current ?xs (Suc (length pre)) ni m"
      unfolding first_min_def by (auto simp: less_Suc_eq)
    then have "first_min d current (?pre @ cs) (length ?pre) ni m"
      by simp
    moreover from Cons.prems(2) False have "scan d current cs (length ?pre) (ni, m) = (i, m')"
      by simp
    ultimately have "first_min d current (?pre @ cs) (length ?pre + length cs) i m'"
      by (rule Cons.IH)
    then show ?thesis by simp
  qed
qed

lemma nearest_first_min:
  assumes "cities \<noteq> []" and "nearest d current cities = (i, m)"
  shows "first_min d current cities (length cities) i m"
proof -
  from assms(1) obtain c cs where cities: "cities = c # cs"
    by (cases cities) auto
  have "first_min d current ([c] @ cs) (length [c]) 0 (d current c)"
    by (simp add: first_min_def)
  moreover from assms(2) cities have "scan d current cs (length [c]) (0, d current c) = (i, m)"
    by (simp add: nearest_def)
  ultimately have "first_min d current ([c] @ cs) (length [c] + length cs) i m"
    by (rule scan_first_min)
  with cities show ?thesis by simp
qed


section \<open>The loop and the returned tour\<close>

lemma tour_inv_push:
  assumes "tour_inv d current tour"
  shows "tour_inv d c (tour\<lparr>path := path tour @ [c], weights := weights tour @ [d current c],
           total_distance := total_distance tour + d current c\<rparr>)"
proof -
  let ?n = "length (path tour)"
  from assms have ne: "path tour \<noteq> []" and cur: "current = last (path tour)"
    and len: "length (weights tour) = ?n" and w0: "weights tour ! 0 = 0"
    and edges: "\<And>i. 0 < i \<Longrightarrow> i < ?n \<Longrightarrow> weights tour ! i = d (path tour ! (i - 1)) (path tour ! i)"
    and tot: "total_distance tour = sum_list (weights tour)"
    by (simp_all add: tour_inv_def)
  from ne have n: "0 < ?n" by simp
  have "(weights tour @ [d current c]) ! i = d ((path tour @ [c]) ! (i - 1)) ((path tour @ [c]) ! i)"
    if "0 < i" "i < Suc ?n" for i
  proof (cases "i < ?n")
    case True
    then have "i - 1 < ?n" by simp
    with True that edges [of i] len show ?thesis
      by (simp add: nth_append)
  next
    case False
    with that have i: "i = ?n" by simp
    from ne cur have "path tour ! (?n - 1) = current"
      by (simp add: last_conv_nth)
    with i len n show ?thesis
      by (simp add: nth_append)
  qed
  with ne len w0 tot n show ?thesis
    by (simp add: tour_inv_def nth_append)
qed

lemma tour_loop_result:
  "tour_inv d current tour \<Longrightarrow> tour_loop d current cities tour = (current', cities', tour') \<Longrightarrow>
   cities' = [] \<and> tour_inv d current' tour' \<and>
   (\<exists>ys. path tour' = path tour @ ys \<and> mset ys = mset cities)"
proof (induction d current cities tour rule: tour_loop.induct)
  case (1 d current cities tour)
  show ?case
  proof (cases "cities = []")
    case True
    with "1.prems" show ?thesis
      by (simp add: tour_loop.simps)
  next
    case False
    obtain i m where nm: "nearest d current cities = (i, m)"
      by (cases "nearest d current cities")
    let ?tour = "tour\<lparr>path := path tour @ [cities ! i], weights := weights tour @ [m],
                      total_distance := total_distance tour + m\<rparr>"
    from nearest_first_min [OF False nm] have i: "i < length cities" and m: "m = d current (cities ! i)"
      by (simp_all add: first_min_def)
    from "1.prems"(1) m have inv: "tour_inv d (cities ! i) ?tour"
      using tour_inv_push [of d current tour "cities ! i"] by simp
    from "1.prems"(2) False nm
    have run: "tour_loop d (cities ! i) (erase i cities) ?tour = (current', cities', tour')"
      by (simp add: tour_loop.simps [of d current cities tour])
    from "1.IH" [OF False nm [symmetric] refl refl inv run]
    obtain ys where ys: "cities' = []" "tour_inv d current' tour'"
      "path tour' = path ?tour @ ys" "mset ys = mset (erase i cities)"
      by auto
    from ys(3) have "path tour' = path tour @ (cities ! i # ys)"
      by simp
    moreover from ys(4) mset_erase [OF i] have "mset (cities ! i # ys) = mset cities"
      by simp
    ultimately show ?thesis
      using ys(1,2) by blast
  qed
qed


lemma nearestNeighbor_body_result:
  assumes "find_start cities start_id = Some k"
  shows "\<exists>current' tour ys.
     nearestNeighbor_body d cities start_id = Inr (current', [], tour) \<and>
     path tour = cities ! k # ys @ [cities ! k] \<and> mset ys = mset (erase k cities) \<and>
     tour_inv d (cities ! k) tour"
proof -
  let ?start = "cities ! k"
  let ?tour0 = "\<lparr>path = [?start], weights = [0], total_distance = 0\<rparr>"
  obtain current' cities' tour' where
    run: "tour_loop d ?start (erase k cities) ?tour0 = (current', cities', tour')"
    by (cases "tour_loop d ?start (erase k cities) ?tour0")
  have "tour_inv d ?start ?tour0"
    by (simp add: tour_inv_def)
  from tour_loop_result [OF this run] obtain ys where
    ys: "cities' = []" "tour_inv d current' tour'" "path tour' = ?start # ys"
      "mset ys = mset (erase k cities)"
    by auto
  let ?tour = "tour'\<lparr>path := path tour' @ [?start],
                     weights := weights tour' @ [d current' ?start],
                     total_distance := total_distance tour' + d current' ?start\<rparr>"
  from assms run ys(1,3) have "nearestNeighbor_body d cities start_id = Inr (current', [], ?tour)"
    by (simp add: nearestNeighbor_body_def Let_def)
  moreover from ys(3) have "path ?tour = ?start # ys @ [?start]"
    by simp
  moreover from ys(2) have "tour_inv d ?start ?tour"
    by (rule tour_inv_push)
  ultimately show ?thesis
    using ys(4) by blast
qed

lemma nearestNeighbor_Inr:
  assumes "nearestNeighbor d cities start_id = Inr tour"
  shows "\<exists>k ys. find_start cities start_id = Some k \<and>
     path tour = cities ! k # ys @ [cities ! k] \<and> mset ys = mset (erase k cities) \<and>
     tour_inv d (cities ! k) tour"
proof (cases "find_start cities start_id")
  case None
  with assms show ?thesis
    by (simp add: nearestNeighbor_def nearestNeighbor_body_def)
next
  case (Some k)
  from nearestNeighbor_body_result [OF Some, of d] assms Some show ?thesis
    by (auto simp: nearestNeighbor_def)
qed

lemma nearestNeighbor_absent:
  "start_id \<notin> id_node ` set cities \<Longrightarrow> nearestNeighbor d cities start_id = Inl EndIteratorDereference"
  by (simp add: nearestNeighbor_def nearestNeighbor_body_def find_start_None_iff [THEN iffD2])

section \<open>The loop, iteration by iteration\<close>

lemma tour_loop_extends:
  "tour_loop d current cities tour = (current', cities', tour') \<Longrightarrow>
   \<exists>ys ws. path tour' = path tour @ ys \<and> weights tour' = weights tour @ ws"
proof (induction d current cities tour rule: tour_loop.induct)
  case (1 d current cities tour)
  show ?case
  proof (cases "cities = []")
    case True
    with "1.prems" show ?thesis
      by (simp add: tour_loop.simps)
  next
    case False
    obtain i m where nm: "nearest d current cities = (i, m)"
      by (cases "nearest d current cities")
    let ?tour = "tour\<lparr>path := path tour @ [cities ! i], weights := weights tour @ [m],
                      total_distance := total_distance tour + m\<rparr>"
    from "1.prems" False nm
    have run: "tour_loop d (cities ! i) (erase i cities) ?tour = (current', cities', tour')"
      by (simp add: tour_loop.simps [of d current cities tour])
    from "1.IH" [OF False nm [symmetric] refl refl run]
    obtain ys ws where "path tour' = path ?tour @ ys" "weights tour' = weights ?tour @ ws"
      by blast
    then have "path tour' = path tour @ (cities ! i # ys)" "weights tour' = weights tour @ (m # ws)"
      by simp_all
    then show ?thesis by blast
  qed
qed

lemma tour_loop_appends_nearest:
  assumes "cities \<noteq> []" and "nearest d current cities = (i, m)"
    and "tour_loop d current cities tour = (current', cities', tour')"
  shows "take (Suc (length (path tour))) (path tour') = path tour @ [cities ! i] \<and>
     take (Suc (length (weights tour))) (weights tour') = weights tour @ [m]"
proof -
  let ?tour = "tour\<lparr>path := path tour @ [cities ! i], weights := weights tour @ [m],
                    total_distance := total_distance tour + m\<rparr>"
  from assms have "tour_loop d (cities ! i) (erase i cities) ?tour = (current', cities', tour')"
    by (simp add: tour_loop.simps [of d current cities tour])
  from tour_loop_extends [OF this]
  obtain ys ws where "path tour' = path ?tour @ ys" "weights tour' = weights ?tour @ ws"
    by blast
  then show ?thesis by simp
qed

lemma tour_loop_iter:
  "tour_loop d current cities tour =
     (case tour_iter n d current cities tour of
        (current1, cities1, tour1) \<Rightarrow> tour_loop d current1 cities1 tour1)"
proof (induction n arbitrary: current cities tour)
  case 0
  show ?case by simp
next
  case (Suc n)
  show ?case
  proof (cases "cities = []")
    case True
    then show ?thesis by simp
  next
    case False
    obtain i m where nm: "nearest d current cities = (i, m)"
      by (cases "nearest d current cities")
    let ?tour = "tour\<lparr>path := path tour @ [cities ! i], weights := weights tour @ [m],
                      total_distance := total_distance tour + m\<rparr>"
    from False nm have "tour_loop d current cities tour =
        tour_loop d (cities ! i) (erase i cities) ?tour"
      by (simp add: tour_loop.simps [of d current cities tour])
    also have "\<dots> = (case tour_iter n d (cities ! i) (erase i cities) ?tour of
        (current1, cities1, tour1) \<Rightarrow> tour_loop d current1 cities1 tour1)"
      by (rule Suc.IH)
    also from False nm have "\<dots> = (case tour_iter (Suc n) d current cities tour of
        (current1, cities1, tour1) \<Rightarrow> tour_loop d current1 cities1 tour1)"
      by simp
    finally show ?thesis .
  qed
qed

lemma tour_iter_running:
  "tour_iter n d current cities tour = (current1, cities1, tour1) \<Longrightarrow> cities1 \<noteq> [] \<Longrightarrow>
   path tour \<noteq> [] \<Longrightarrow> current = last (path tour) \<Longrightarrow>
   length (path tour1) = length (path tour) + n \<and> length (weights tour1) = length (weights tour) + n \<and>
   length cities1 + n = length cities \<and> current1 = last (path tour1)"
proof (induction n arbitrary: current cities tour)
  case 0
  then show ?case by auto
next
  case (Suc n)
  from Suc.prems(1,2) have ne: "cities \<noteq> []"
    by (auto split: if_splits)
  obtain i m where nm: "nearest d current cities = (i, m)"
    by (cases "nearest d current cities")
  let ?tour = "tour\<lparr>path := path tour @ [cities ! i], weights := weights tour @ [m],
                    total_distance := total_distance tour + m\<rparr>"
  from nearest_first_min [OF ne nm] have i: "i < length cities"
    by (simp add: first_min_def)
  from Suc.prems(1) ne nm
  have run: "tour_iter n d (cities ! i) (erase i cities) ?tour = (current1, cities1, tour1)"
    by simp
  have "length (path tour1) = length (path ?tour) + n \<and>
      length (weights tour1) = length (weights ?tour) + n \<and>
      length cities1 + n = length (erase i cities) \<and> current1 = last (path tour1)"
    by (rule Suc.IH [OF run Suc.prems(2)]) simp_all
  with i ne show ?case
    by (simp add: length_erase)
qed

section \<open>Evaluation on concrete collections\<close>

lemma sqrt_9: "sqrt 9 = 3"
  by (rule real_sqrt_unique) simp_all

lemma sqrt_16: "sqrt 16 = 4"
  by (rule real_sqrt_unique) simp_all

lemma sqrt_25: "sqrt 25 = 5"
  by (rule real_sqrt_unique) simp_all


lemma nearestNeighbor_triangle:
  "nearestNeighbor distance [mk_Node 1 0 0, mk_Node 2 3 0, mk_Node 3 3 4] 1 =
   Inr \<lparr>path = [mk_Node 1 0 0, mk_Node 2 3 0, mk_Node 3 3 4, mk_Node 1 0 0],
        weights = [0, 3, 4, 5], total_distance = 12\<rparr>"
  by (simp add: nearestNeighbor_def nearestNeighbor_body_def erase_def tour_loop.simps nearest_def
      distance_def sqrt_9 sqrt_16 sqrt_25 Let_def)

lemma sqrt_4: "sqrt 4 = 2"
  by (rule real_sqrt_unique) simp_all

lemma sqrt_36: "sqrt 36 = 6"
  by (rule real_sqrt_unique) simp_all

lemma sqrt_64: "sqrt 64 = 8"
  by (rule real_sqrt_unique) simp_all

lemma nearestNeighbor_line:
  "nearestNeighbor distance [mk_Node 1 0 0, mk_Node 4 5 0, mk_Node 2 3 0, mk_Node 3 (- 3) 0] 1 =
   Inr \<lparr>path = [mk_Node 1 0 0, mk_Node 2 3 0, mk_Node 4 5 0, mk_Node 3 (- 3) 0, mk_Node 1 0 0],
        weights = [0, 3, 2, 8, 3], total_distance = 16\<rparr>"
  by (simp add: nearestNeighbor_def nearestNeighbor_body_def erase_def tour_loop.simps nearest_def
      distance_def sqrt_4 sqrt_9 sqrt_25 sqrt_36 sqrt_64 Let_def)

lemma nearest_line:
  "nearest distance (mk_Node 1 0 0) [mk_Node 4 5 0, mk_Node 2 3 0, mk_Node 3 (- 3) 0] = (1, 3)"
  by (simp add: nearest_def distance_def sqrt_9 sqrt_25)

lemma sqrt_2_126: "sqrt 85070591730234615865843651857942052864 = 9223372036854775808"
  by (rule real_sqrt_unique) simp_all

lemma nearestNeighbor_far:
  "nearestNeighbor distance [mk_Node 1 0 0, mk_Node 2 9223372036854775808 0] 1 =
   Inr \<lparr>path = [mk_Node 1 0 0, mk_Node 2 9223372036854775808 0, mk_Node 1 0 0],
        weights = [0, 9223372036854775808, 9223372036854775808], total_distance = 0\<rparr>"
  by (simp add: nearestNeighbor_def nearestNeighbor_body_def erase_def tour_loop.simps nearest_def
      distance_def sqrt_2_126 Let_def)

text \<open>
  A distance that is not integral is cut off, not rounded: \<open>sqrt 8\<close> is about \<open>2.83\<close>.
\<close>

lemma floor_sqrt_8: "\<lfloor>sqrt 8\<rfloor> = 2"
proof (rule floor_unique)
  show "of_int 2 \<le> sqrt 8"
    by (rule real_le_rsqrt) simp
  show "sqrt 8 < of_int 2 + 1"
    by (rule real_less_lsqrt) simp_all
qed

lemma distance_truncates: "distance (mk_Node 1 0 0) (mk_Node 2 2 2) = 2"
  by (simp add: distance_def floor_sqrt_8)

section \<open>The formatter's loop\<close>

lemma display_loop_closed:
  "length (path t) \<le> length (weights t) \<Longrightarrow>
   display_loop t i out =
     Inr (out @ concat (map (\<lambda>j. edge_line (path t ! (j - 1)) (path t ! j) (weights t ! j))
                         [i..<length (path t)]))"
proof (induction t i out rule: display_loop.induct)
  case (1 t i out)
  show ?case
  proof (cases "i < length (path t)")
    case True
    with "1.prems" have w: "i < length (weights t)" by simp
    from True have upt: "[i..<length (path t)] = i # [Suc i..<length (path t)]"
      by (rule upt_conv_Cons)
    from "1.IH" [OF True w "1.prems"] True w show ?thesis
      by (simp add: display_loop.simps [of t i out] upt)
  next
    case False
    then show ?thesis
      by (simp add: display_loop.simps [of t i out])
  qed
qed

text \<open>A number is written with digits only, so a line feed never comes from a number.\<close>

lemma digit_not_newline:
  assumes "k < 10"
  shows "''0123456789'' ! k \<noteq> CHR 0x0A"
proof -
  from assms have "''0123456789'' ! k \<in> set ''0123456789''"
    by (intro nth_mem) simp
  moreover have "CHR 0x0A \<notin> set ''0123456789''"
    by simp
  ultimately show ?thesis
    by metis
qed

lemma to_string_newline_free: "CHR 0x0A \<notin> set (to_string n)"
proof (induction n rule: to_string.induct)
  case (1 n)
  show ?case
  proof (cases "n < 10")
    case True
    then have "to_string n = [''0123456789'' ! n]"
      by (subst to_string.simps) simp
    with digit_not_newline [OF True] show ?thesis
      by simp
  next
    case False
    then have "to_string n = to_string (n div 10) @ [''0123456789'' ! (n mod 10)]"
      by (subst to_string.simps) simp
    moreover have "''0123456789'' ! (n mod 10) \<noteq> CHR 0x0A"
      by (rule digit_not_newline) simp
    ultimately show ?thesis
      using "1.IH" [OF False] by simp
  qed
qed

lemma to_string_no_newline: "filter (\<lambda>c. c = CHR 0x0A) (to_string n) = []"
  using to_string_newline_free [of n] by (auto simp: filter_empty_conv)

lemma filter_concat_lines:
  "(\<And>x. x \<in> set xs \<Longrightarrow> length (filter P (f x)) = 1) \<Longrightarrow>
   length (filter P (concat (map f xs))) = length xs"
  by (induction xs) simp_all

text \<open>Every tour that \<^verbatim>\<open>nearestNeighbor\<close> returns can be displayed.\<close>

lemma display_returned_tour:
  assumes "nearestNeighbor d cities start_id = Inr tour"
  shows "\<exists>out. display tour = Inr out"
proof -
  from nearestNeighbor_Inr [OF assms] have "length (path tour) \<le> length (weights tour)"
    by (auto simp: tour_inv_def)
  then show ?thesis
    by (simp add: display_def display_loop_closed)
qed

section \<open>Sums in natural numbers\<close>

text \<open>
  A sum of \<^verbatim>\<open>size_t\<close> values wraps around: read as a natural number, it is the sum of the
  values modulo \<open>2 ^ 64\<close>.
\<close>

lemma unat_sum_list:
  "unat (sum_list ws) = sum_list (map unat ws) mod 2 ^ 64" for ws :: "size_t list"
proof (induction ws)
  case Nil
  show ?case by simp
next
  case (Cons w ws)
  have "unat (w + sum_list ws) = (unat w + unat (sum_list ws)) mod 2 ^ 64"
    by (simp add: unat_word_ariths)
  also have "\<dots> = (unat w + sum_list (map unat ws) mod 2 ^ 64) mod 2 ^ 64"
    by (simp only: Cons.IH)
  also have "\<dots> = (unat w + sum_list (map unat ws)) mod 2 ^ 64"
    by (rule mod_add_right_eq)
  finally show ?case by simp
qed

section \<open>Writes of the body in the store\<close>

text \<open>
  The loop writes at the parameter's address only, leaves the parameter empty, and
  computes what \<open>tour_loop\<close> computes on the list found there.
\<close>

lemma tour_loop_at_writes:
  "tour_loop_at d p current \<sigma> tour = (current', \<sigma>', tour') \<Longrightarrow>
   (\<forall>b. b \<noteq> p \<longrightarrow> \<sigma>' b = \<sigma> b) \<and> \<sigma>' p = [] \<and>
   tour_loop d current (\<sigma> p) tour = (current', [], tour')"
proof (induction d p current \<sigma> tour rule: tour_loop_at.induct)
  case (1 d p current \<sigma> tour)
  show ?case
  proof (cases "\<sigma> p = []")
    case True
    with "1.prems" show ?thesis
      by (auto simp: tour_loop_at.simps [of d p current \<sigma> tour] tour_loop.simps [of _ _ "[]"])
  next
    case False
    obtain i m where nm: "nearest d current (\<sigma> p) = (i, m)"
      by (cases "nearest d current (\<sigma> p)")
    let ?tour = "tour\<lparr>path := path tour @ [\<sigma> p ! i], weights := weights tour @ [m],
                      total_distance := total_distance tour + m\<rparr>"
    let ?\<sigma> = "\<sigma>(p := erase i (\<sigma> p))"
    from "1.prems" False nm
    have run: "tour_loop_at d p (\<sigma> p ! i) ?\<sigma> ?tour = (current', \<sigma>', tour')"
      by (simp add: tour_loop_at.simps [of d p current \<sigma> tour])
    from "1.IH" [OF False nm [symmetric] refl refl run]
    have ih: "\<forall>b. b \<noteq> p \<longrightarrow> \<sigma>' b = ?\<sigma> b" "\<sigma>' p = []"
      "tour_loop d (\<sigma> p ! i) (?\<sigma> p) ?tour = (current', [], tour')"
      by simp_all
    from ih(3) False nm have "tour_loop d current (\<sigma> p) tour = (current', [], tour')"
      by (simp add: tour_loop.simps [of d current "\<sigma> p" tour])
    with ih(1,2) show ?thesis
      by simp
  qed
qed

lemma nearestNeighbor_at_result:
  assumes "nearestNeighbor_at d p \<sigma> start_id = Inr (tour, \<sigma>')"
  shows "(\<forall>b. b \<noteq> p \<longrightarrow> \<sigma>' b = \<sigma> b) \<and> \<sigma>' p = [] \<and> nearestNeighbor d (\<sigma> p) start_id = Inr tour"
proof -
  from assms obtain k where k: "find_start (\<sigma> p) start_id = Some k"
    by (cases "find_start (\<sigma> p) start_id") (simp_all add: nearestNeighbor_at_def)
  let ?\<sigma> = "\<sigma>(p := erase k (\<sigma> p))"
  let ?tour0 = "\<lparr>path = [\<sigma> p ! k], weights = [0], total_distance = 0\<rparr>"
  obtain current1 \<sigma>1 tour1 where
    run: "tour_loop_at d p (\<sigma> p ! k) ?\<sigma> ?tour0 = (current1, \<sigma>1, tour1)"
    by (cases "tour_loop_at d p (\<sigma> p ! k) ?\<sigma> ?tour0")
  from tour_loop_at_writes [OF run]
  have w: "\<forall>b. b \<noteq> p \<longrightarrow> \<sigma>1 b = ?\<sigma> b" "\<sigma>1 p = []"
    "tour_loop d (\<sigma> p ! k) (erase k (\<sigma> p)) ?tour0 = (current1, [], tour1)"
    by simp_all
  from assms k run have res: "\<sigma>' = \<sigma>1"
    "tour = tour1\<lparr>path := path tour1 @ [hd (path tour1)],
                  weights := weights tour1 @ [d current1 (hd (path tour1))],
                  total_distance := total_distance tour1 + d current1 (hd (path tour1))\<rparr>"
    by (simp_all add: nearestNeighbor_at_def Let_def)
  from k w(3) res(2) have "nearestNeighbor d (\<sigma> p) start_id = Inr tour"
    by (simp add: nearestNeighbor_def nearestNeighbor_body_def Let_def)
  with w(1,2) res(1) show ?thesis
    by simp
qed

lemma nearestNeighbor_at_returns:
  assumes "start_id \<in> id_node ` set (\<sigma> p)"
  shows "\<exists>tour \<sigma>'. nearestNeighbor_at d p \<sigma> start_id = Inr (tour, \<sigma>')"
proof -
  from assms obtain k where k: "find_start (\<sigma> p) start_id = Some k"
    by (cases "find_start (\<sigma> p) start_id") (simp_all add: find_start_None_iff)
  then show ?thesis
    by (simp add: nearestNeighbor_at_def Let_def split: prod.splits)
qed

text \<open>
  Had the body worked on the caller's own list (a reference parameter), the caller's list
  would be empty after the call.
\<close>

lemma by_reference_consumes:
  "nearestNeighbor_at d a \<sigma> start_id = Inr (tour, \<sigma>') \<Longrightarrow> \<sigma>' a = []"
  using nearestNeighbor_at_result [of d a \<sigma> start_id tour \<sigma>'] by simp

section \<open>Missing start city\<close>

text \<open>
  Claim C1 asks for an explicit, typed precondition failure when the collection is empty or
  holds no point with the start id. The code tests nothing: \<^verbatim>\<open>start_it\<close> stays
  \<^verbatim>\<open>cities.end()\<close>, is dereferenced and erased. On the empty collection, and on a collection
  whose only point has another id, the call leaves defined behaviour at that dereference.
\<close>

theorem nearestNeighbor_no_check:
  "nearestNeighbor d [] 1 = Inl EndIteratorDereference \<and>
   nearestNeighbor d [mk_Node 2 0 0] 1 = Inl EndIteratorDereference"
  by (simp add: nearestNeighbor_absent)

section \<open>Shape of the tour\<close>

text \<open>
  Claim C2: for a non-empty collection with distinct ids and a start id that occurs in it,
  the call returns a tour whose path has one more element than the collection, starts and
  ends with the start id, and holds the id of every other input point exactly once. The
  start id occurs exactly twice, and the path without its closing element is a permutation
  of the collection.
\<close>

theorem nearestNeighbor_tour:
  assumes "cities \<noteq> []" and "distinct (map id_node cities)" and "start_id \<in> id_node ` set cities"
  shows "\<exists>tour. nearestNeighbor d cities start_id = Inr tour \<and>
     length (path tour) = length cities + 1 \<and>
     id_node (hd (path tour)) = start_id \<and> id_node (last (path tour)) = start_id \<and>
     (\<forall>p \<in> set cities. id_node p \<noteq> start_id \<longrightarrow>
        count_list (map id_node (path tour)) (id_node p) = 1) \<and>
     count_list (map id_node (path tour)) start_id = 2 \<and>
     mset (butlast (path tour)) = mset cities"
proof -
  from assms(3) obtain k where k: "find_start cities start_id = Some k"
    by (cases "find_start cities start_id") (simp_all add: find_start_None_iff)
  from find_start_Some [OF k] have kl: "k < length cities" and ks: "id_node (cities ! k) = start_id"
    by simp_all
  from nearestNeighbor_body_result [OF k, of d] obtain current' tour ys where
    body: "nearestNeighbor_body d cities start_id = Inr (current', [], tour)"
    and p: "path tour = cities ! k # ys @ [cities ! k]"
    and ys: "mset ys = mset (erase k cities)"
    by blast
  from body have nn: "nearestNeighbor d cities start_id = Inr tour"
    by (simp add: nearestNeighbor_def)
  from ys mset_erase [OF kl] have perm: "mset (cities ! k # ys) = mset cities"
    by simp
  then have len: "length (cities ! k # ys) = length cities"
    by (rule mset_eq_length)
  from perm have ids: "mset (map id_node (cities ! k # ys)) = mset (map id_node cities)"
    by (metis mset_map)
  have cnt: "count_list (map id_node (cities ! k # ys)) a = (if a \<in> id_node ` set cities then 1 else 0)" for a
  proof -
    have "count_list (map id_node (cities ! k # ys)) a = count (mset (map id_node (cities ! k # ys))) a"
      by (simp only: count_mset)
    also have "\<dots> = count (mset (map id_node cities)) a"
      by (simp only: ids)
    also have "\<dots> = (if a \<in> id_node ` set cities then 1 else 0)"
    proof -
      from assms(2) have "count (mset (map id_node cities)) a =
          (if a \<in> set (map id_node cities) then 1 else 0)"
        by (simp only: distinct_count_atmost_1)
      then show ?thesis
        by (simp only: set_map)
    qed
    finally show ?thesis .
  qed
  have split: "map id_node (path tour) = map id_node (cities ! k # ys) @ [start_id]"
    by (simp add: p ks)
  have "length (path tour) = length cities + 1"
    using len by (simp add: p)
  moreover have "id_node (hd (path tour)) = start_id"
    by (simp add: p ks)
  moreover have "id_node (last (path tour)) = start_id"
    by (simp add: p ks)
  moreover have "\<forall>p \<in> set cities. id_node p \<noteq> start_id \<longrightarrow>
        count_list (map id_node (path tour)) (id_node p) = 1"
    by (simp only: split count_list_append cnt) simp
  moreover have "count_list (map id_node (path tour)) start_id = 2"
    using assms(3) by (simp only: split count_list_append cnt) simp
  moreover have "mset (butlast (path tour)) = mset cities"
    using perm by (simp add: p butlast_append)
  ultimately show ?thesis
    using nn by blast
qed

theorem nearestNeighbor_tour_witness:
  "[mk_Node 1 0 0, mk_Node 2 3 0, mk_Node 3 3 4] \<noteq> [] \<and>
   distinct (map id_node [mk_Node 1 0 0, mk_Node 2 3 0, mk_Node 3 3 4]) \<and>
   1 \<in> id_node ` set [mk_Node 1 0 0, mk_Node 2 3 0, mk_Node 3 3 4] \<and>
   (\<exists>tour. nearestNeighbor distance [mk_Node 1 0 0, mk_Node 2 3 0, mk_Node 3 3 4] 1 = Inr tour \<and>
     length (path tour) = 4 \<and> id_node (hd (path tour)) = 1 \<and> id_node (last (path tour)) = 1 \<and>
     count_list (map id_node (path tour)) 2 = 1 \<and> count_list (map id_node (path tour)) 3 = 1)"
  using nearestNeighbor_tour [of "[mk_Node 1 0 0, mk_Node 2 3 0, mk_Node 3 3 4]" 1 distance]
  by auto

section \<open>Greedy selection\<close>

text \<open>
  Claim C3: take any iteration of the loop inside a call that returns \<open>tour\<close>: after \<open>n\<close>
  iterations the locals are \<open>current\<close>, the working collection \<open>remaining\<close> (not empty, so
  another iteration follows) and the tour \<open>t\<close> built so far. The position \<open>i\<close> selected in
  \<open>remaining\<close> holds a point whose distance from \<open>current\<close> is minimal among all remaining
  points, and every point before it in enumeration order is strictly farther. That point
  is what the iteration appends: the returned path continues \<open>path t\<close> with
  \<open>remaining ! i\<close>, and the returned weights continue \<open>weights t\<close> with its distance.
\<close>

theorem nearestNeighbor_selects_first_nearest:
  assumes "nearestNeighbor d cities start_id = Inr tour"
    and "find_start cities start_id = Some k"
    and "tour_iter n d (cities ! k) (erase k cities)
           \<lparr>path = [cities ! k], weights = [0], total_distance = 0\<rparr> = (current, remaining, t)"
    and "remaining \<noteq> []"
  shows "\<exists>i m. nearest d current remaining = (i, m) \<and> i < length remaining \<and>
     m = d current (remaining ! i) \<and>
     (\<forall>j<length remaining. d current (remaining ! i) \<le> d current (remaining ! j)) \<and>
     (\<forall>j<i. d current (remaining ! i) < d current (remaining ! j)) \<and>
     length (path t) = Suc n \<and> current = last (path t) \<and>
     take (Suc (Suc n)) (path tour) = path t @ [remaining ! i] \<and>
     take (Suc (Suc n)) (weights tour) = weights t @ [m]"
proof -
  let ?start = "cities ! k"
  let ?tour0 = "\<lparr>path = [?start], weights = [0], total_distance = 0\<rparr>"
  obtain i m where nm: "nearest d current remaining = (i, m)"
    by (cases "nearest d current remaining")
  from nearest_first_min [OF assms(4) nm]
  have sel: "i < length remaining" "m = d current (remaining ! i)"
    "\<forall>j<length remaining. d current (remaining ! i) \<le> d current (remaining ! j)"
    "\<forall>j<i. d current (remaining ! i) < d current (remaining ! j)"
    by (auto simp: first_min_def)
  from tour_iter_running [OF assms(3,4)]
  have len: "length (path t) = Suc n" "length (weights t) = Suc n" and cur: "current = last (path t)"
    by simp_all
  obtain current' cities' tour' where
    run: "tour_loop d ?start (erase k cities) ?tour0 = (current', cities', tour')"
    by (cases "tour_loop d ?start (erase k cities) ?tour0")
  from run assms(3) tour_loop_iter [of d ?start "erase k cities" ?tour0 n]
  have "tour_loop d current remaining t = (current', cities', tour')"
    by simp
  from tour_loop_appends_nearest [OF assms(4) nm this] len
  have pre: "take (Suc (Suc n)) (path tour') = path t @ [remaining ! i]"
    "take (Suc (Suc n)) (weights tour') = weights t @ [m]"
    by simp_all
  from pre(1) have "length (take (Suc (Suc n)) (path tour')) = length (path t @ [remaining ! i])"
    by (simp only:)
  with len have long1: "Suc (Suc n) \<le> length (path tour')"
    by simp
  from pre(2) have "length (take (Suc (Suc n)) (weights tour')) = length (weights t @ [m])"
    by (simp only:)
  with len have long2: "Suc (Suc n) \<le> length (weights tour')"
    by simp
  from assms(1,2) run have
    "path tour = path tour' @ [hd (path tour')]"
    "weights tour = weights tour' @ [d current' (hd (path tour'))]"
    by (auto simp: nearestNeighbor_def nearestNeighbor_body_def Let_def)
  with pre long1 long2 have "take (Suc (Suc n)) (path tour) = path t @ [remaining ! i]"
    "take (Suc (Suc n)) (weights tour) = weights t @ [m]"
    by simp_all
  with nm sel len cur show ?thesis
    by blast
qed

theorem nearestNeighbor_selects_first_nearest_witness:
  "nearestNeighbor distance [mk_Node 1 0 0, mk_Node 4 5 0, mk_Node 2 3 0, mk_Node 3 (- 3) 0] 1 =
     Inr \<lparr>path = [mk_Node 1 0 0, mk_Node 2 3 0, mk_Node 4 5 0, mk_Node 3 (- 3) 0, mk_Node 1 0 0],
          weights = [0, 3, 2, 8, 3], total_distance = 16\<rparr> \<and>
   find_start [mk_Node 1 0 0, mk_Node 4 5 0, mk_Node 2 3 0, mk_Node 3 (- 3) 0] 1 = Some 0 \<and>
   tour_iter 0 distance (mk_Node 1 0 0) [mk_Node 4 5 0, mk_Node 2 3 0, mk_Node 3 (- 3) 0]
       \<lparr>path = [mk_Node 1 0 0], weights = [0], total_distance = 0\<rparr> =
     (mk_Node 1 0 0, [mk_Node 4 5 0, mk_Node 2 3 0, mk_Node 3 (- 3) 0],
      \<lparr>path = [mk_Node 1 0 0], weights = [0], total_distance = 0\<rparr>) \<and>
   nearest distance (mk_Node 1 0 0) [mk_Node 4 5 0, mk_Node 2 3 0, mk_Node 3 (- 3) 0] = (1, 3) \<and>
   distance (mk_Node 1 0 0) (mk_Node 2 3 0) = distance (mk_Node 1 0 0) (mk_Node 3 (- 3) 0) \<and>
   take 2 [mk_Node 1 0 0, mk_Node 2 3 0, mk_Node 4 5 0, mk_Node 3 (- 3) 0, mk_Node 1 0 0] =
     [mk_Node 1 0 0] @ [[mk_Node 4 5 0, mk_Node 2 3 0, mk_Node 3 (- 3) 0] ! 1] \<and>
   take 2 [0 :: size_t, 3, 2, 8, 3] = [0] @ [3] \<and>
   tour_iter 1 distance (mk_Node 1 0 0) [mk_Node 4 5 0, mk_Node 2 3 0, mk_Node 3 (- 3) 0]
       \<lparr>path = [mk_Node 1 0 0], weights = [0], total_distance = 0\<rparr> =
     (mk_Node 2 3 0, [mk_Node 4 5 0, mk_Node 3 (- 3) 0],
      \<lparr>path = [mk_Node 1 0 0, mk_Node 2 3 0], weights = [0, 3], total_distance = 3\<rparr>) \<and>
   nearest distance (mk_Node 2 3 0) [mk_Node 4 5 0, mk_Node 3 (- 3) 0] = (0, 2) \<and>
   take 3 [mk_Node 1 0 0, mk_Node 2 3 0, mk_Node 4 5 0, mk_Node 3 (- 3) 0, mk_Node 1 0 0] =
     [mk_Node 1 0 0, mk_Node 2 3 0] @ [[mk_Node 4 5 0, mk_Node 3 (- 3) 0] ! 0] \<and>
   take 3 [0 :: size_t, 3, 2, 8, 3] = [0, 3] @ [2]"
proof -
  let ?cities = "[mk_Node 1 0 0, mk_Node 4 5 0, mk_Node 2 3 0, mk_Node 3 (- 3) 0]"
  let ?tour0 = "\<lparr>path = [mk_Node 1 0 0], weights = [0 :: size_t], total_distance = 0\<rparr>"
  let ?tour1 = "\<lparr>path = [mk_Node 1 0 0, mk_Node 2 3 0], weights = [0 :: size_t, 3],
      total_distance = 3\<rparr>"
  have fs: "find_start ?cities 1 = Some 0"
    by simp
  have it0: "tour_iter 0 distance (?cities ! 0) (erase 0 ?cities)
      \<lparr>path = [?cities ! 0], weights = [0], total_distance = 0\<rparr> =
      (mk_Node 1 0 0, [mk_Node 4 5 0, mk_Node 2 3 0, mk_Node 3 (- 3) 0], ?tour0)"
    by (simp add: erase_def)
  have it1: "tour_iter (Suc 0) distance (?cities ! 0) (erase 0 ?cities)
      \<lparr>path = [?cities ! 0], weights = [0], total_distance = 0\<rparr> =
      (mk_Node 2 3 0, [mk_Node 4 5 0, mk_Node 3 (- 3) 0], ?tour1)"
    by (simp add: erase_def nearest_line)
  have n1: "nearest distance (mk_Node 2 3 0) [mk_Node 4 5 0, mk_Node 3 (- 3) 0] = (0, 2)"
    by (simp add: nearest_def distance_def sqrt_4 sqrt_36)
  have ne0: "[mk_Node 4 5 0, mk_Node 2 3 0, mk_Node 3 (- 3) 0] \<noteq> []"
    and ne1: "[mk_Node 4 5 0, mk_Node 3 (- 3) 0] \<noteq> []"
    by simp_all
  have d: "distance (mk_Node 1 0 0) (mk_Node 2 3 0) = distance (mk_Node 1 0 0) (mk_Node 3 (- 3) 0)"
    by (simp add: distance_def sqrt_9)
  from nearestNeighbor_selects_first_nearest [OF nearestNeighbor_line fs it0 ne0]
    nearestNeighbor_selects_first_nearest [OF nearestNeighbor_line fs it1 ne1]
    fs it0 it1 n1 d nearestNeighbor_line
  show ?thesis
    by (simp add: nearest_line erase_def)
qed

section \<open>Weights\<close>

text \<open>
  Claim C4: in every returned tour, \<open>weights\<close> is as long as \<open>path\<close>, its first entry is
  \<open>0\<close>, and every later entry is the distance from the previous city of the path to the
  city at that position.
\<close>

theorem nearestNeighbor_weights:
  assumes "nearestNeighbor d cities start_id = Inr tour"
  shows "length (weights tour) = length (path tour) \<and> weights tour ! 0 = 0 \<and>
     (\<forall>i. 0 < i \<and> i < length (path tour) \<longrightarrow>
        weights tour ! i = d (path tour ! (i - 1)) (path tour ! i))"
  using nearestNeighbor_Inr [OF assms] by (auto simp: tour_inv_def)

theorem nearestNeighbor_weights_witness:
  "nearestNeighbor distance [mk_Node 1 0 0, mk_Node 2 3 0, mk_Node 3 3 4] 1 =
     Inr \<lparr>path = [mk_Node 1 0 0, mk_Node 2 3 0, mk_Node 3 3 4, mk_Node 1 0 0],
          weights = [0, 3, 4, 5], total_distance = 12\<rparr> \<and>
   length [0 :: size_t, 3, 4, 5] = length [mk_Node 1 0 0, mk_Node 2 3 0, mk_Node 3 3 4, mk_Node 1 0 0] \<and>
   [0 :: size_t, 3, 4, 5] ! 0 = 0 \<and>
   [0, 3, 4, 5] ! 1 = distance (mk_Node 1 0 0) (mk_Node 2 3 0) \<and>
   [0, 3, 4, 5] ! 2 = distance (mk_Node 2 3 0) (mk_Node 3 3 4) \<and>
   [0, 3, 4, 5] ! 3 = distance (mk_Node 3 3 4) (mk_Node 1 0 0)"
proof -
  let ?tour = "\<lparr>path = [mk_Node 1 0 0, mk_Node 2 3 0, mk_Node 3 3 4, mk_Node 1 0 0],
          weights = [0, 3, 4, 5], total_distance = 12\<rparr>"
  note w = nearestNeighbor_weights [OF nearestNeighbor_triangle, THEN conjunct2, THEN conjunct2,
      rule_format]
  have "weights ?tour ! 1 = distance (path ?tour ! (1 - 1)) (path ?tour ! 1)"
    by (rule w) simp
  moreover have "weights ?tour ! 2 = distance (path ?tour ! (2 - 1)) (path ?tour ! 2)"
    by (rule w) simp
  moreover have "weights ?tour ! 3 = distance (path ?tour ! (3 - 1)) (path ?tour ! 3)"
    by (rule w) simp
  ultimately show ?thesis
    using nearestNeighbor_triangle by simp
qed

section \<open>Total distance\<close>

text \<open>
  Claim C5 as stated, with the exact sum of the weights, fails when the sum leaves the
  range of \<^verbatim>\<open>size_t\<close>: for the points \<open>1:(0,0)\<close> and \<open>2:(2^63,0)\<close> both edges have length
  \<open>2^63\<close>, the weights add up to \<open>2^64\<close>, and \<^verbatim>\<open>total_distance\<close> has wrapped around to \<open>0\<close>.
\<close>

theorem nearestNeighbor_total_counterexample:
  "nearestNeighbor distance [mk_Node 1 0 0, mk_Node 2 9223372036854775808 0] 1 =
     Inr \<lparr>path = [mk_Node 1 0 0, mk_Node 2 9223372036854775808 0, mk_Node 1 0 0],
          weights = [0, 9223372036854775808, 9223372036854775808], total_distance = 0\<rparr> \<and>
   unat (total_distance
       \<lparr>path = [mk_Node 1 0 0, mk_Node 2 9223372036854775808 0, mk_Node 1 0 0],
        weights = [0, 9223372036854775808, 9223372036854775808], total_distance = 0\<rparr>) \<noteq>
     sum_list (map unat (weights
       \<lparr>path = [mk_Node 1 0 0, mk_Node 2 9223372036854775808 0, mk_Node 1 0 0],
        weights = [0, 9223372036854775808, 9223372036854775808], total_distance = 0\<rparr>))"
  by (simp add: nearestNeighbor_far)

text \<open>
  Claim C5, amended: in every returned tour, \<open>total_distance\<close> is the sum of all entries of
  \<open>weights\<close> in the wrapping arithmetic of \<^verbatim>\<open>size_t\<close>, that is, the exact sum modulo \<open>2^64\<close>;
  it is the exact sum whenever that sum is below \<open>2^64\<close>.
\<close>

theorem nearestNeighbor_total_mod:
  assumes "nearestNeighbor d cities start_id = Inr tour"
  shows "total_distance tour = sum_list (weights tour) \<and>
     unat (total_distance tour) = sum_list (map unat (weights tour)) mod 2 ^ 64 \<and>
     (sum_list (map unat (weights tour)) < 2 ^ 64 \<longrightarrow>
        unat (total_distance tour) = sum_list (map unat (weights tour)))"
proof -
  from nearestNeighbor_Inr [OF assms] have eq: "total_distance tour = sum_list (weights tour)"
    by (auto simp: tour_inv_def)
  then have "unat (total_distance tour) = sum_list (map unat (weights tour)) mod 2 ^ 64"
    by (simp only: unat_sum_list)
  with eq show ?thesis
    by simp
qed

theorem nearestNeighbor_total_mod_witness:
  "nearestNeighbor distance [mk_Node 1 0 0, mk_Node 2 3 0, mk_Node 3 3 4] 1 =
     Inr \<lparr>path = [mk_Node 1 0 0, mk_Node 2 3 0, mk_Node 3 3 4, mk_Node 1 0 0],
          weights = [0, 3, 4, 5], total_distance = 12\<rparr> \<and>
   (12 :: size_t) = sum_list [0, 3, 4, 5] \<and>
   sum_list (map unat [0 :: size_t, 3, 4, 5]) < 2 ^ 64 \<and>
   unat (12 :: size_t) = sum_list (map unat [0 :: size_t, 3, 4, 5]) \<and>
   nearestNeighbor distance [mk_Node 1 0 0, mk_Node 2 9223372036854775808 0] 1 =
     Inr \<lparr>path = [mk_Node 1 0 0, mk_Node 2 9223372036854775808 0, mk_Node 1 0 0],
          weights = [0, 9223372036854775808, 9223372036854775808], total_distance = 0\<rparr> \<and>
   unat (0 :: size_t) =
     sum_list (map unat [0 :: size_t, 9223372036854775808, 9223372036854775808]) mod 2 ^ 64"
  using nearestNeighbor_total_mod [OF nearestNeighbor_triangle] nearestNeighbor_triangle
    nearestNeighbor_total_mod [OF nearestNeighbor_far] nearestNeighbor_far
  by simp

section \<open>Concrete scenarios\<close>

text \<open>
  Claim C6: for the points \<open>1:(0,0)\<close>, \<open>2:(3,0)\<close>, \<open>3:(3,4)\<close> and start id \<open>1\<close> the tour
  visits the ids \<open>1, 2, 3, 1\<close> with weights \<open>[0, 3, 4, 5]\<close> and total distance \<open>12\<close>; the
  three edges have the truncated Euclidean lengths \<open>3\<close>, \<open>4\<close> and \<open>5\<close>.
\<close>

theorem nearestNeighbor_scenario:
  "\<exists>tour. nearestNeighbor distance [mk_Node 1 0 0, mk_Node 2 3 0, mk_Node 3 3 4] 1 = Inr tour \<and>
     map id_node (path tour) = [1, 2, 3, 1] \<and> weights tour = [0, 3, 4, 5] \<and>
     total_distance tour = 12 \<and>
     distance (mk_Node 1 0 0) (mk_Node 2 3 0) = 3 \<and>
     distance (mk_Node 2 3 0) (mk_Node 3 3 4) = 4 \<and>
     distance (mk_Node 3 3 4) (mk_Node 1 0 0) = 5"
  by (simp add: nearestNeighbor_triangle) (simp add: distance_def sqrt_9 sqrt_16 sqrt_25)

text \<open>
  Claim C7: for the single point \<open>1:(5,5)\<close> and start id \<open>1\<close> the tour is the point twice,
  with weights \<open>[0, 0]\<close> and total distance \<open>0\<close>.
\<close>

theorem nearestNeighbor_single:
  "nearestNeighbor distance [mk_Node 1 5 5] 1 =
     Inr \<lparr>path = [mk_Node 1 5 5, mk_Node 1 5 5], weights = [0, 0], total_distance = 0\<rparr>"
  by (simp add: nearestNeighbor_def nearestNeighbor_body_def erase_def tour_loop.simps
      distance_def Let_def)

section \<open>Properties of the distance\<close>

text \<open>
  Claim C8: the distance is symmetric, never negative (as an unsigned value, and already
  before the conversion to \<^verbatim>\<open>size_t\<close>), and zero from a point to itself.
\<close>

theorem distance_symmetric_nonneg:
  "distance a b = distance b a \<and> 0 \<le> distance a b \<and>
   0 \<le> \<lfloor>sqrt ((x_node a - x_node b)\<^sup>2 + (y_node a - y_node b)\<^sup>2)\<rfloor> \<and>
   distance a a = 0"
  by (simp add: distance_def power2_commute [of "x_node a"] power2_commute [of "y_node a"])

section \<open>The report\<close>

text \<open>
  Claim C9: for a completed tour (\<open>weights\<close> as long as \<open>path\<close>), \<^verbatim>\<open>display\<close> writes, for
  every position \<open>i\<close> from \<open>1\<close> in order, the line
  \<^verbatim>\<open>EDGE <path[i-1].id> -> <path[i].id> | WEIGHT : <weights[i]>\<close>, then the line
  \<^verbatim>\<open>TOTAL DISTANCE: <total_distance>\<close>, and nothing else. Every line ends with one line
  feed, and the output has as many line feeds as there are edges, plus one.
\<close>

theorem display_output:
  assumes "length (weights t) = length (path t)"
  shows "display t =
     Inr (concat (map (\<lambda>i. ''EDGE '' @ to_string (unat (id_node (path t ! (i - 1)))) @ '' -> ''
                        @ to_string (unat (id_node (path t ! i))) @ '' | WEIGHT : ''
                        @ to_string (unat (weights t ! i)) @ [CHR 0x0A])
                   [1..<length (path t)])
          @ ''TOTAL DISTANCE: '' @ to_string (unat (total_distance t)) @ [CHR 0x0A]) \<and>
     (\<exists>out. display t = Inr out \<and>
        length (filter (\<lambda>c. c = CHR 0x0A) out) = (length (path t) - 1) + 1)"
proof -
  let ?line = "\<lambda>i. ''EDGE '' @ to_string (unat (id_node (path t ! (i - 1)))) @ '' -> ''
                        @ to_string (unat (id_node (path t ! i))) @ '' | WEIGHT : ''
                        @ to_string (unat (weights t ! i)) @ [CHR 0x0A]"
  let ?total = "''TOTAL DISTANCE: '' @ to_string (unat (total_distance t)) @ [CHR 0x0A]"
  from assms have "length (path t) \<le> length (weights t)" by simp
  then have out: "display t = Inr (concat (map ?line [1..<length (path t)]) @ ?total)"
    by (simp add: display_def display_loop_closed edge_line_def endl_def)
  have "length (filter (\<lambda>c. c = CHR 0x0A) (?line i)) = 1" for i
    by (simp add: to_string_no_newline)
  then have "length (filter (\<lambda>c. c = CHR 0x0A) (concat (map ?line [1..<length (path t)]))) =
      length [1..<length (path t)]"
    by (intro filter_concat_lines)
  moreover have "length (filter (\<lambda>c. c = CHR 0x0A) ?total) = 1"
    by (simp add: to_string_no_newline)
  ultimately have "length (filter (\<lambda>c. c = CHR 0x0A)
      (concat (map ?line [1..<length (path t)]) @ ?total)) = (length (path t) - 1) + 1"
    by simp
  with out show ?thesis
    by simp
qed

theorem display_output_witness:
  "length [0 :: size_t, 3, 4, 5] = length [mk_Node 1 0 0, mk_Node 2 3 0, mk_Node 3 3 4, mk_Node 1 0 0] \<and>
   display \<lparr>path = [mk_Node 1 0 0, mk_Node 2 3 0, mk_Node 3 3 4, mk_Node 1 0 0],
            weights = [0, 3, 4, 5], total_distance = 12\<rparr> =
     Inr (''EDGE 1 -> 2 | WEIGHT : 3'' @ [CHR 0x0A] @ ''EDGE 2 -> 3 | WEIGHT : 4'' @ [CHR 0x0A]
          @ ''EDGE 3 -> 1 | WEIGHT : 5'' @ [CHR 0x0A] @ ''TOTAL DISTANCE: 12'' @ [CHR 0x0A]) \<and>
   length (filter (\<lambda>c. c = CHR 0x0A)
     (''EDGE 1 -> 2 | WEIGHT : 3'' @ [CHR 0x0A] @ ''EDGE 2 -> 3 | WEIGHT : 4'' @ [CHR 0x0A]
          @ ''EDGE 3 -> 1 | WEIGHT : 5'' @ [CHR 0x0A] @ ''TOTAL DISTANCE: 12'' @ [CHR 0x0A])) = 4"
  using display_output [of "\<lparr>path = [mk_Node 1 0 0, mk_Node 2 3 0, mk_Node 3 3 4, mk_Node 1 0 0],
            weights = [0, 3, 4, 5], total_distance = 12\<rparr>"]
  by (simp add: to_string.simps)

section \<open>The caller's collection\<close>

text \<open>
  Claim C10 as stated speaks of every input collection. On the empty collection the call
  does not return: it dereferences \<^verbatim>\<open>cities.end()\<close>, so there is no list after the call
  to compare with the list before it.
\<close>

theorem call_nearestNeighbor_frame_counterexample:
  "call_nearestNeighbor distance (\<lambda>b. []) 0 1 1 = Inl EndIteratorDereference"
  by (simp add: call_nearestNeighbor_def nearestNeighbor_at_def)


text \<open>
  Claim C10, amended: for every input collection that holds a point with the start id, the
  call returns, and the caller's list is the same after the call as before it. The body
  writes to the parameter object only, which is a copy at another address; no other list
  in the store changes, and the copy is empty when the call returns. Nothing is said about
  a call without a start city.
\<close>

theorem call_nearestNeighbor_frame:
  assumes "p \<noteq> a" and "start_id \<in> id_node ` set (\<sigma> a)"
  shows "\<exists>tour \<sigma>'. call_nearestNeighbor d \<sigma> a p start_id = Inr (tour, \<sigma>') \<and>
     \<sigma>' a = \<sigma> a \<and> (\<forall>b. b \<noteq> p \<longrightarrow> \<sigma>' b = \<sigma> b) \<and> \<sigma>' p = [] \<and>
     nearestNeighbor d (\<sigma> a) start_id = Inr tour"
proof -
  let ?\<sigma> = "\<sigma>(p := \<sigma> a)"
  from assms(2) have "start_id \<in> id_node ` set (?\<sigma> p)"
    by simp
  from nearestNeighbor_at_returns [of start_id ?\<sigma> p d, OF this] obtain tour \<sigma>' where
    run: "nearestNeighbor_at d p ?\<sigma> start_id = Inr (tour, \<sigma>')"
    by blast
  from nearestNeighbor_at_result [OF run]
  have "\<forall>b. b \<noteq> p \<longrightarrow> \<sigma>' b = \<sigma> b" "\<sigma>' p = []" "nearestNeighbor d (\<sigma> a) start_id = Inr tour"
    by simp_all
  with assms(1) run show ?thesis
    by (auto simp: call_nearestNeighbor_def)
qed

theorem call_nearestNeighbor_frame_witness:
  "(1 :: addr) \<noteq> 0 \<and>
   1 \<in> id_node ` set (((\<lambda>b. [])(0 := [mk_Node 1 0 0, mk_Node 2 3 0, mk_Node 3 3 4])) 0) \<and>
   (\<exists>\<sigma>'. call_nearestNeighbor distance
            ((\<lambda>b. [])(0 := [mk_Node 1 0 0, mk_Node 2 3 0, mk_Node 3 3 4])) 0 1 1 =
          Inr (\<lparr>path = [mk_Node 1 0 0, mk_Node 2 3 0, mk_Node 3 3 4, mk_Node 1 0 0],
                weights = [0, 3, 4, 5], total_distance = 12\<rparr>, \<sigma>') \<and>
        \<sigma>' 0 = [mk_Node 1 0 0, mk_Node 2 3 0, mk_Node 3 3 4] \<and> \<sigma>' 1 = [])"
  using call_nearestNeighbor_frame [of 1 0 1
      "(\<lambda>b. [])(0 := [mk_Node 1 0 0, mk_Node 2 3 0, mk_Node 3 3 4])" distance]
    nearestNeighbor_triangle
  by auto

end
